theory Spec2Isabelle
  imports Main "HOL-Library.Word" "HOL-Library.Signed_Division" "HOL-Library.AList"
begin

unbundle bit_operations_syntax

section \<open>Go values shared by the packages\<close>

text \<open>
  Go's \<open>int\<close> is taken on a 64-bit platform: a 64-bit two's complement word, read with
  \<open>sint\<close> and compared with \<open><s\<close>. \<open>uint64\<close> is the same word read with \<open>unat\<close>, so the
  conversion \<open>uint64(n)\<close> keeps the bits.
\<close>

type_synonym goint = "64 word"
type_synonym uint64 = "64 word"

text \<open>
  A call either returns or panics. A runtime panic carries its message.
\<close>

datatype 'a outcome = Returned 'a | Panicked string

fun map_outcome :: "('a \<Rightarrow> 'b) \<Rightarrow> 'a outcome \<Rightarrow> 'b outcome" where
  "map_outcome f (Returned x) = Returned (f x)"
| "map_outcome f (Panicked msg) = Panicked msg"

text \<open>
  Go errors: the sentinel \<open>ErrNoOutput\<close> of package partitions, an error made elsewhere,
  \<open>errors.Wrap(err, msg)\<close>, and the error that \<open>logger.WrapRecover\<close> makes of a recovered
  panic.
\<close>

datatype error = ErrNoOutput | OtherError string | Wrap error string | Recovered string

text \<open>
  \<open>for k := range m\<close> visits every key of the map once, in an order the runtime picks.
  The order is an argument of the functions that iterate; \<open>range_order m ks\<close> says that
  \<open>ks\<close> is one of the orders the runtime may pick for \<open>m\<close>.
\<close>

definition range_order :: "('k \<rightharpoonup> 'v) \<Rightarrow> 'k list \<Rightarrow> bool" where
  "range_order m ks \<longleftrightarrow> distinct ks \<and> set ks = dom m"

subsection \<open>strconv\<close>

text \<open>
  \<open>strconv.FormatUint(v, 10)\<close> and \<open>strconv.Itoa(i)\<close> of the standard library: the digits
  of the magnitude, most significant first, no leading zero, a minus sign for a negative
  \<open>int\<close>.
\<close>

definition digit_char :: "nat \<Rightarrow> char" where
  "digit_char d = char_of (48 + d)"

function decimal :: "nat \<Rightarrow> string" where
  "decimal n = (if n < 10 then [digit_char n] else decimal (n div 10) @ [digit_char (n mod 10)])"
  by pat_completeness auto
termination
  by (relation "measure id") auto

declare decimal.simps [simp del]

definition FormatUint :: "uint64 \<Rightarrow> string" where
  "FormatUint v = decimal (unat v)"

definition Itoa :: "goint \<Rightarrow> string" where
  "Itoa i = (if i <s 0 then CHR ''-'' # decimal (nat (- sint i)) else decimal (nat (sint i)))"

text \<open>
  Reading a decimal numeral back, the inverse used to say what "decimal rendering" means.
\<close>

definition digit_value :: "char \<Rightarrow> nat" where
  "digit_value c = of_char c - 48"

definition decimal_value :: "string \<Rightarrow> nat" where
  "decimal_value s = foldl (\<lambda>acc c. 10 * acc + digit_value c) 0 s"

subsection \<open>FNV-1a\<close>

text \<open>
  \<open>fnv1a.HashString64\<close> of the library \<open>github.com/segmentio/fasthash\<close>: the 64-bit
  FNV-1a hash of the bytes of the string. Each byte is xor-ed into the state, which is then
  multiplied by the FNV prime, wrapping at 64 bits.
\<close>

definition offset64 :: uint64 where
  "offset64 = 14695981039346656037"

definition prime64 :: uint64 where
  "prime64 = 1099511628211"

fun AddString64 :: "uint64 \<Rightarrow> string \<Rightarrow> uint64" where
  "AddString64 h [] = h"
| "AddString64 h (c # s) = AddString64 ((h XOR of_char c) * prime64) s"

definition HashString64 :: "string \<Rightarrow> uint64" where
  "HashString64 s = AddString64 offset64 s"

section \<open>Package partitions\<close>

text \<open>
  \<open>AssignmentAffinity\<close> is a Go map from strings to strings, kept as an association list
  with one entry per key and read with \<open>map_of\<close>. \<open>None\<close> is the nil map, which reads as
  the empty map and has length 0.
\<close>

record Partition =
  ID :: string
  IsElastic :: bool
  AssignmentAffinity :: "(string \<times> string) list option"

text \<open>
  The partitioners read only the key of a row; the other fields of \<open>lrdd.Row\<close> are the
  extension of the record. \<open>Context\<close> is the interface with the one method
  \<open>PartitionID()\<close>.
\<close>

record Row =
  Key :: string

record Context =
  PartitionID :: string

text \<open>
  The implementations of the interface \<open>Partitioner\<close>. The dynamic type matters to
  \<open>IsPreserved\<close>: \<open>PreservePartitioner\<close> has value receivers, so both the pointer (what
  \<open>NewPreservePartitioner\<close> returns) and the plain struct value implement the interface.
  \<open>CustomPartitioner\<close> stands for an implementation from outside the package, given by
  its two methods.
\<close>

datatype 'p SerializableStruct = SerializablePartitioner 'p

datatype 'r Partitioner =
    FiniteKeyPartitioner "string \<rightharpoonup> unit"
  | hashKeyPartitioner
  | ShuffledPartitioner
  | PreservePartitionerPtr
  | PreservePartitionerValue
  | Serializable "'r Partitioner SerializableStruct"
  | masterAssigner "'r Partitioner SerializableStruct"
  | CustomPartitioner
      "goint \<Rightarrow> Partition list outcome"
      "Context \<Rightarrow> 'r Row_scheme \<Rightarrow> goint \<Rightarrow> (string \<times> error option) outcome"

definition WrapPartitioner :: "'r Partitioner \<Rightarrow> 'r Partitioner SerializableStruct" where
  "WrapPartitioner p = SerializablePartitioner p"

fun UnwrapPartitioner :: "'r Partitioner \<Rightarrow> 'r Partitioner" where
  "UnwrapPartitioner (Serializable (SerializablePartitioner p)) = p"
| "UnwrapPartitioner p = p"

text \<open>
  \<open>PlanForNumberOf\<close>: \<open>make([]Partition, numExecutors)\<close> panics on a negative length;
  the loop then fills the slice by index.
\<close>

definition zero_Partition :: Partition where
  "zero_Partition = \<lparr>ID = [], IsElastic = False, AssignmentAffinity = None\<rparr>"

function PlanForNumberOf_loop :: "goint \<Rightarrow> goint \<Rightarrow> Partition list \<Rightarrow> Partition list" where
  "PlanForNumberOf_loop numExecutors i pp =
     (if i <s numExecutors
      then PlanForNumberOf_loop numExecutors (i + 1)
             (pp[unat i := \<lparr>ID = Itoa i, IsElastic = True, AssignmentAffinity = None\<rparr>])
      else pp)"
  by pat_completeness auto

termination PlanForNumberOf_loop
proof (relation "measure (\<lambda>(n, i, pp). nat (sint n - sint i))")
  show "wf (measure (\<lambda>(n :: goint, i :: goint, pp :: Partition list). nat (sint n - sint i)))"
    by simp
next
  fix numExecutors i :: goint and pp :: "Partition list"
  assume less: "i <s numExecutors"
  have "sint i < sint numExecutors" using less by (simp add: word_sless_alt)
  moreover have "sint numExecutors < 2 ^ 63" using sint_lt [of numExecutors] by simp
  moreover have "- (2 ^ 63) \<le> sint i" using sint_ge [of i] by simp
  ultimately have "- (2 ^ 63) \<le> sint i + 1 \<and> sint i + 1 < 2 ^ 63" by arith
  then have "sint (i + 1) = sint i + 1"
    by (simp add: sint_word_ariths signed_take_bit_int_eq_self)
  then show "((numExecutors, i + 1,
               pp[unat i := \<lparr>ID = Itoa i, IsElastic = True, AssignmentAffinity = None\<rparr>]),
              (numExecutors, i, pp))
             \<in> measure (\<lambda>(n, i, pp). nat (sint n - sint i))"
    using \<open>sint i < sint numExecutors\<close> by simp
qed

declare PlanForNumberOf_loop.simps [simp del]

definition PlanForNumberOf :: "goint \<Rightarrow> Partition list outcome" where
  "PlanForNumberOf numExecutors =
     (if numExecutors <s 0 then Panicked ''makeslice: len out of range''
      else Returned (PlanForNumberOf_loop numExecutors 0
                       (replicate (unat numExecutors) zero_Partition)))"

text \<open>
  \<open>NewFiniteKeyPartitioner\<close> collects the keys into a set; \<open>FiniteKeyPartitioner.PlanNext\<close>
  appends one partition per key in the order \<open>ks\<close> of the range loop.
\<close>

fun NewFiniteKeyPartitioner_loop :: "string list \<Rightarrow> (string \<rightharpoonup> unit) \<Rightarrow> (string \<rightharpoonup> unit)" where
  "NewFiniteKeyPartitioner_loop [] keySet = keySet"
| "NewFiniteKeyPartitioner_loop (k # keys) keySet = NewFiniteKeyPartitioner_loop keys (keySet(k \<mapsto> ()))"

definition NewFiniteKeyPartitioner :: "string list \<Rightarrow> 'r Partitioner" where
  "NewFiniteKeyPartitioner keys = FiniteKeyPartitioner (NewFiniteKeyPartitioner_loop keys Map.empty)"

fun FiniteKey_PlanNext_loop :: "string list \<Rightarrow> Partition list \<Rightarrow> Partition list" where
  "FiniteKey_PlanNext_loop [] partitions = partitions"
| "FiniteKey_PlanNext_loop (key # ks) partitions =
     FiniteKey_PlanNext_loop ks
       (partitions @ [\<lparr>ID = key, IsElastic = False, AssignmentAffinity = None\<rparr>])"

text \<open>
  \<open>masterAssigner.PlanNext\<close> walks the planned slice by index and writes the affinity into
  each element: a fresh map when the element has none (\<open>len\<close> is 0 for nil and for empty),
  the element's own map otherwise.
\<close>

definition affinity_len :: "(string \<times> string) list option \<Rightarrow> nat" where
  "affinity_len a = (case a of None \<Rightarrow> 0 | Some kvs \<Rightarrow> length kvs)"

definition assign_master :: "Partition \<Rightarrow> Partition" where
  "assign_master pt =
     (let pt1 = (if affinity_len (AssignmentAffinity pt) = 0
                 then pt\<lparr>AssignmentAffinity := Some []\<rparr> else pt)
      in pt1\<lparr>AssignmentAffinity :=
               map_option (AList.update ''Type'' ''master'') (AssignmentAffinity pt1)\<rparr>)"

function masterAssigner_loop :: "nat \<Rightarrow> Partition list \<Rightarrow> Partition list" where
  "masterAssigner_loop i planned =
     (if i < length planned
      then masterAssigner_loop (Suc i) (planned[i := assign_master (planned ! i)])
      else planned)"
  by pat_completeness auto
termination
  by (relation "measure (\<lambda>(i, planned). length planned - i)") auto

declare masterAssigner_loop.simps [simp del]

text \<open>
  Go's \<open>%\<close>: division by zero panics; on \<open>int\<close> the remainder truncates towards zero
  (\<open>smod\<close>), on \<open>uint64\<close> it is the unsigned \<open>mod\<close>.
\<close>

definition rem_uint64 :: "uint64 \<Rightarrow> uint64 \<Rightarrow> uint64 outcome" where
  "rem_uint64 a b = (if b = 0 then Panicked ''integer divide by zero'' else Returned (a mod b))"

definition rem_int :: "goint \<Rightarrow> goint \<Rightarrow> goint outcome" where
  "rem_int a b =
     (if b = 0 then Panicked ''integer divide by zero''
      else Returned (word_of_int (sint a smod sint b)))"

text \<open>
  The two methods of the interface, by dynamic type. \<open>ks\<close> is the order of the range loop
  over the key set (read by \<open>FiniteKeyPartitioner\<close> only) and \<open>rnd\<close> is the value that
  \<open>rand.Int()\<close> returns (read by \<open>ShuffledPartitioner\<close> only).
\<close>

fun PlanNext :: "'r Partitioner \<Rightarrow> string list \<Rightarrow> goint \<Rightarrow> Partition list outcome" where
  "PlanNext (FiniteKeyPartitioner KeySet) ks numExecutors = Returned (FiniteKey_PlanNext_loop ks [])"
| "PlanNext hashKeyPartitioner ks numExecutors = PlanForNumberOf numExecutors"
| "PlanNext ShuffledPartitioner ks numExecutors = PlanForNumberOf numExecutors"
| "PlanNext PreservePartitionerPtr ks numExecutors = PlanForNumberOf numExecutors"
| "PlanNext PreservePartitionerValue ks numExecutors = PlanForNumberOf numExecutors"
| "PlanNext (Serializable (SerializablePartitioner p)) ks numExecutors = PlanNext p ks numExecutors"
| "PlanNext (masterAssigner (SerializablePartitioner p)) ks numExecutors =
     map_outcome (masterAssigner_loop 0) (PlanNext p ks numExecutors)"
| "PlanNext (CustomPartitioner plan det) ks numExecutors = plan numExecutors"

fun DeterminePartition ::
  "'r Partitioner \<Rightarrow> goint \<Rightarrow> Context \<Rightarrow> 'r Row_scheme \<Rightarrow> goint \<Rightarrow> (string \<times> error option) outcome"
where
  "DeterminePartition (FiniteKeyPartitioner KeySet) rnd c r numOutputs =
     (case KeySet (Key r) of
        None \<Rightarrow> Returned ([], Some ErrNoOutput)
      | Some u \<Rightarrow> Returned (Key r, None))"
| "DeterminePartition hashKeyPartitioner rnd c r numOutputs =
     map_outcome (\<lambda>slot. (FormatUint slot, None)) (rem_uint64 (HashString64 (Key r)) numOutputs)"
| "DeterminePartition ShuffledPartitioner rnd c r numOutputs =
     map_outcome (\<lambda>slot. (Itoa slot, None)) (rem_int rnd numOutputs)"
| "DeterminePartition PreservePartitionerPtr rnd c r numOutputs = Returned (PartitionID c, None)"
| "DeterminePartition PreservePartitionerValue rnd c r numOutputs = Returned (PartitionID c, None)"
| "DeterminePartition (Serializable (SerializablePartitioner p)) rnd c r numOutputs =
     DeterminePartition p rnd c r numOutputs"
| "DeterminePartition (masterAssigner (SerializablePartitioner p)) rnd c r numOutputs =
     DeterminePartition p rnd c r numOutputs"
| "DeterminePartition (CustomPartitioner plan det) rnd c r numOutputs = det c r numOutputs"

definition NewHashKeyPartitioner :: "'r Partitioner" where
  "NewHashKeyPartitioner = hashKeyPartitioner"

definition NewShuffledPartitioner :: "'r Partitioner" where
  "NewShuffledPartitioner = ShuffledPartitioner"

definition NewPreservePartitioner :: "'r Partitioner" where
  "NewPreservePartitioner = PreservePartitionerPtr"

definition WithAssignmentToMaster :: "'r Partitioner \<Rightarrow> 'r Partitioner" where
  "WithAssignmentToMaster p = masterAssigner (WrapPartitioner p)"

text \<open>
  \<open>IsPreserved\<close>: the type assertion to \<open>*PreservePartitioner\<close> on the unwrapped value.
\<close>

fun is_PreservePartitionerPtr :: "'r Partitioner \<Rightarrow> bool" where
  "is_PreservePartitionerPtr PreservePartitionerPtr = True"
| "is_PreservePartitionerPtr p = False"

definition IsPreserved :: "'r Partitioner \<Rightarrow> bool" where
  "IsPreserved p = is_PreservePartitionerPtr (UnwrapPartitioner p)"


text \<open>
  What a call of \<open>DeterminePartition\<close> did: returned an error value, or panicked.
\<close>

fun returns_error :: "(string \<times> error option) outcome \<Rightarrow> bool" where
  "returns_error (Returned (pid, Some e)) = True"
| "returns_error other = False"

fun panics :: "'a outcome \<Rightarrow> bool" where
  "panics (Panicked msg) = True"
| "panics (Returned x) = False"

section \<open>Package worker: the task executor\<close>

text \<open>
  The executor talks to its collaborators only through calls: \<open>runner.Apply\<close>,
  \<open>runner.Teardown\<close>, \<open>Output.Close\<close>, \<open>reporter.ReportSuccess\<close> and
  \<open>reporter.ReportFailure\<close>. Each call returns an error, returns nil (\<open>None\<close>) or panics.
  The collaborators are given by their answers: \<open>Apply i rows\<close> is the answer to the
  \<open>i\<close>-th batch, \<open>Close k\<close> and \<open>ReportFailure k err\<close> the answers to the \<open>k\<close>-th call
  (counted from 0). The input channel delivers a finite list of batches and is then closed.
\<close>

record 'b Collaborators =
  Apply :: "nat \<Rightarrow> 'b \<Rightarrow> error option outcome"
  Teardown :: "error option outcome"
  Close :: "nat \<Rightarrow> error option outcome"
  ReportSuccess :: "error option outcome"
  ReportFailure :: "nat \<Rightarrow> error \<Rightarrow> error option outcome"

text \<open>
  A run is observed through the calls it makes, in order. \<open>FinishSend\<close> is the send
  \<open>e.finishChan <- true\<close>, the only statement that lets \<open>WaitForFinish\<close> return.
\<close>

datatype 'b event =
    ApplyCall 'b
  | TeardownCall
  | CloseCall
  | ReportSuccessCall
  | ReportFailureCall error
  | FinishSend

fun is_CloseCall :: "'b event \<Rightarrow> bool" where
  "is_CloseCall CloseCall = True"
| "is_CloseCall ev = False"

fun is_ReportFailureCall :: "'b event \<Rightarrow> bool" where
  "is_ReportFailureCall (ReportFailureCall err) = True"
| "is_ReportFailureCall ev = False"

fun is_ReportSuccessCall :: "'b event \<Rightarrow> bool" where
  "is_ReportSuccessCall ReportSuccessCall = True"
| "is_ReportSuccessCall ev = False"

fun is_FinishSend :: "'b event \<Rightarrow> bool" where
  "is_FinishSend FinishSend = True"
| "is_FinishSend ev = False"

text \<open>
  \<open>Abort\<close>: report the failure (the reporter's own error is only logged), then close the
  output and drop its error.
\<close>

definition Abort ::
  "'b Collaborators \<Rightarrow> error \<Rightarrow> 'b event list \<Rightarrow> unit outcome \<times> 'b event list" where
  "Abort e err tr =
     (let tr1 = tr @ [ReportFailureCall err] in
      case ReportFailure e (length (filter is_ReportFailureCall tr)) err of
        Panicked msg \<Rightarrow> (Panicked msg, tr1)
      | Returned reportErr \<Rightarrow>
          (let tr2 = tr1 @ [CloseCall] in
           case Close e (length (filter is_CloseCall tr1)) of
             Panicked msg \<Rightarrow> (Panicked msg, tr2)
           | Returned closeErr \<Rightarrow> (Returned (), tr2)))"

text \<open>
  The drain loop of \<open>Run\<close>. \<open>Returned True\<close>: the channel was closed and \<open>Run\<close> goes on;
  \<open>Returned False\<close>: \<open>Run\<close> returned from inside the loop.
\<close>

fun Run_loop ::
  "'b Collaborators \<Rightarrow> 'b list \<Rightarrow> nat \<Rightarrow> 'b event list \<Rightarrow> bool outcome \<times> 'b event list" where
  "Run_loop e [] i tr = (Returned True, tr)"
| "Run_loop e (rows # rest) i tr =
     (let tr1 = tr @ [ApplyCall rows] in
      case Apply e i rows of
        Panicked msg \<Rightarrow> (Panicked msg, tr1)
      | Returned (Some err) \<Rightarrow>
          (case Abort e err tr1 of
             (Panicked msg, tr2) \<Rightarrow> (Panicked msg, tr2)
           | (Returned u, tr2) \<Rightarrow> (Returned False, tr2))
      | Returned None \<Rightarrow> Run_loop e rest (Suc i) tr1)"

text \<open>
  The body of \<open>Run\<close> below the \<open>defer\<close>. After a failed \<open>Output.Close\<close> the source calls
  \<open>Abort\<close> and, having no \<open>return\<close> there, goes on to \<open>ReportSuccess\<close>.
\<close>

definition Run_body ::
  "'b Collaborators \<Rightarrow> 'b list \<Rightarrow> 'b event list \<Rightarrow> unit outcome \<times> 'b event list" where
  "Run_body e batches tr =
     (case Run_loop e batches 0 tr of
        (Panicked msg, tr1) \<Rightarrow> (Panicked msg, tr1)
      | (Returned False, tr1) \<Rightarrow> (Returned (), tr1)
      | (Returned True, tr1) \<Rightarrow>
          (let tr2 = tr1 @ [TeardownCall] in
           case Teardown e of
             Panicked msg \<Rightarrow> (Panicked msg, tr2)
           | Returned (Some err) \<Rightarrow> Abort e (Wrap err ''teardown stage'') tr2
           | Returned None \<Rightarrow>
               (let tr3 = tr2 @ [CloseCall] in
                case Close e (length (filter is_CloseCall tr2)) of
                  Panicked msg \<Rightarrow> (Panicked msg, tr3)
                | Returned closeErr \<Rightarrow>
                    (case (case closeErr of
                             Some err \<Rightarrow> Abort e (Wrap err ''close output'') tr3
                           | None \<Rightarrow> (Returned (), tr3)) of
                       (Panicked msg, tr4) \<Rightarrow> (Panicked msg, tr4)
                     | (Returned u, tr4) \<Rightarrow>
                         (let tr5 = tr4 @ [ReportSuccessCall] in
                          case ReportSuccess e of
                            Panicked msg \<Rightarrow> (Panicked msg, tr5)
                          | Returned (Some err) \<Rightarrow>
                              Abort e (Wrap err ''report successful task'') tr5
                          | Returned None \<Rightarrow> (Returned (), tr5 @ [FinishSend]))))))"

text \<open>
  \<open>Run\<close> with its deferred \<open>AbortOnPanic\<close>: a panic of the body is recovered, wrapped and
  passed to \<open>Abort\<close>; a panic of that \<open>Abort\<close> leaves \<open>Run\<close>.
\<close>

definition Run :: "'b Collaborators \<Rightarrow> 'b list \<Rightarrow> unit outcome \<times> 'b event list" where
  "Run e batches =
     (case Run_body e batches [] of
        (Panicked msg, tr) \<Rightarrow> Abort e (Recovered msg) tr
      | (Returned u, tr) \<Rightarrow> (Returned (), tr))"

text \<open>
  Collaborators of a task whose output fails to close: everything else succeeds. The
  second one also fails to report the success.
\<close>

definition close_fails :: "unit Collaborators" where
  "close_fails =
     \<lparr>Apply = (\<lambda>i rows. Returned None),
      Teardown = Returned None,
      Close = (\<lambda>k. Returned (Some (OtherError ''flush''))),
      ReportSuccess = Returned None,
      ReportFailure = (\<lambda>k err. Returned None)\<rparr>"

definition close_and_report_fail :: "unit Collaborators" where
  "close_and_report_fail = close_fails\<lparr>ReportSuccess := Returned (Some (OtherError ''etcd''))\<rparr>"

section \<open>Package lrdd\<close>

subsection \<open>From\<close>

text \<open>
  The values that \<open>From\<close> tells apart through package reflect. A map key of kind string
  renders as itself under \<open>Value.String()\<close>; a key of another kind renders as the
  placeholder with the name of its type. A map has one static element type, and
  \<open>iter.Value().Kind()\<close> is the kind of that static type: a slice or array type, an
  interface type (whatever value the interface holds), or another type.
\<close>

datatype mapkey = StringKey string | OtherKey string

fun Key_String :: "mapkey \<Rightarrow> string" where
  "Key_String (StringKey s) = s"
| "Key_String (OtherKey typ) = ''<'' @ typ @ '' Value>''"

datatype elemkind = SeqElem | InterfaceElem | OtherElem

datatype 'r goval =
    NilVal
  | IntVal int
  | StringVal string
  | RowPtr 'r
  | RowPtrSlice "'r list"
  | RowPtrArray "'r list"
  | SeqVal "'r goval list"
  | MapVal elemkind "(mapkey \<times> 'r goval) list"

text \<open>
  \<open>RowPtrSlice\<close> is a \<open>[]*Row\<close>, \<open>RowPtrArray\<close> a \<open>[n]*Row\<close>, \<open>SeqVal\<close> a slice or array of
  any other element type, holding the values that \<open>Index(i).Interface()\<close> returns.
  The entries of a \<open>MapVal\<close> are listed in the order in which \<open>MapRange\<close> yields them.
\<close>

fun elements :: "'r goval \<Rightarrow> 'r goval list option" where
  "elements (SeqVal xs) = Some xs"
| "elements (RowPtrSlice rs) = Some (map RowPtr rs)"
| "elements (RowPtrArray rs) = Some (map RowPtr rs)"
| "elements v = None"

text \<open>
  Modelled from the spec: the constructors \<open>Value\<close> and \<open>KeyValue\<close> and the Row they build
  are not in the sources. A Row has a key and holds the value under the default field
  name; \<open>Value\<close> leaves the key empty.
\<close>

datatype lrow = LRow (RowKey: string) (RowValue: "lrow goval")

definition KeyValue :: "string \<Rightarrow> lrow goval \<Rightarrow> lrow" where
  "KeyValue k v = LRow k v"

definition Value :: "lrow goval \<Rightarrow> lrow" where
  "Value v = LRow [] v"

fun From_slice_loop :: "lrow goval list \<Rightarrow> lrow list \<Rightarrow> lrow list" where
  "From_slice_loop [] rows = rows"
| "From_slice_loop (x # xs) rows = From_slice_loop xs (rows @ [Value x])"

fun From_entry_loop :: "string \<Rightarrow> lrow goval list \<Rightarrow> lrow list \<Rightarrow> lrow list" where
  "From_entry_loop k [] rows = rows"
| "From_entry_loop k (x # xs) rows = From_entry_loop k xs (rows @ [KeyValue k x])"

text \<open>
  The loop over the map. In a map of sequences every entry value has elements; the
  \<open>None\<close> branch stands for a value that no Go map of that type can hold.
\<close>

fun From_map_loop :: "elemkind \<Rightarrow> (mapkey \<times> lrow goval) list \<Rightarrow> lrow list \<Rightarrow> lrow list" where
  "From_map_loop ek [] rows = rows"
| "From_map_loop ek ((key, v) # rest) rows =
     (let k = Key_String key in
      if ek = SeqElem
      then From_map_loop ek rest
             (case elements v of Some xs \<Rightarrow> From_entry_loop k xs rows | None \<Rightarrow> rows)
      else From_map_loop ek rest (rows @ [KeyValue k v]))"

fun From :: "lrow goval \<Rightarrow> lrow list outcome" where
  "From (RowPtrSlice rs) = Returned rs"
| "From (RowPtrArray rs) = Panicked ''interface conversion: interface {} is not []*lrdd.Row''"
| "From (SeqVal xs) = Returned (From_slice_loop xs [])"
| "From (MapVal ek entries) = Returned (From_map_loop ek entries [])"
| "From v = Returned ([] @ [Value v])"

subsection \<open>Row.Merge\<close>

text \<open>
  In this file a Row is a Go map from field names to \<open>interface{}\<close> values. A map is a
  reference: the store lists the maps allocated so far, a Row value is the address of one of
  them or nil (\<open>None\<close>). Reading a nil map or a missing key gives the nil interface.
\<close>

datatype 'a iface = Nil | Dyn 'a

type_synonym 'a store = "(string \<rightharpoonup> 'a iface) list"
type_synonym RowRef = "nat option"

definition valid_ref :: "'a store \<Rightarrow> RowRef \<Rightarrow> bool" where
  "valid_ref s r = (case r of None \<Rightarrow> True | Some a \<Rightarrow> a < length s)"

definition row_map :: "'a store \<Rightarrow> RowRef \<Rightarrow> (string \<rightharpoonup> 'a iface)" where
  "row_map s r = (case r of None \<Rightarrow> Map.empty | Some a \<Rightarrow> if a < length s then s ! a else Map.empty)"

definition row_index :: "'a store \<Rightarrow> RowRef \<Rightarrow> string \<Rightarrow> 'a iface" where
  "row_index s r k = (case row_map s r k of None \<Rightarrow> Nil | Some v \<Rightarrow> v)"

definition make_Row :: "'a store \<Rightarrow> 'a store \<times> nat" where
  "make_Row s = (s @ [Map.empty], length s)"

definition assign :: "'a store \<Rightarrow> nat \<Rightarrow> string \<Rightarrow> 'a iface \<Rightarrow> 'a store" where
  "assign s a k v = s[a := (s ! a)(k \<mapsto> v)]"

text \<open>
  \<open>for k := range src { o[k] = src[k] }\<close>, with \<open>ks\<close> the order of the range loop.
\<close>

fun Merge_loop :: "RowRef \<Rightarrow> nat \<Rightarrow> string list \<Rightarrow> 'a store \<Rightarrow> 'a store" where
  "Merge_loop src dst [] s = s"
| "Merge_loop src dst (k # ks) s = Merge_loop src dst ks (assign s dst k (row_index s src k))"

definition Merge ::
  "'a store \<Rightarrow> RowRef \<Rightarrow> RowRef \<Rightarrow> string list \<Rightarrow> string list \<Rightarrow> 'a store \<times> RowRef" where
  "Merge s r a ks_r ks_a =
     (let (s1, dst) = make_Row s;
          s2 = Merge_loop r dst ks_r s1;
          s3 = Merge_loop a dst ks_a s2
      in (s3, Some dst))"

section \<open>Properties\<close>

subsection \<open>Words and decimal numerals\<close>

lemma sint_succ_below:
  fixes i n :: goint
  assumes "i <s n"
  shows "sint (i + 1) = sint i + 1"
proof -
  have "sint i < sint n" using assms by (simp add: word_sless_alt)
  moreover have "sint n < 2 ^ 63" using sint_lt [of n] by simp
  moreover have "- (2 ^ 63) \<le> sint i" using sint_ge [of i] by simp
  ultimately have "- (2 ^ 63) \<le> sint i + 1 \<and> sint i + 1 < 2 ^ 63" by arith
  then show ?thesis
    by (simp add: sint_word_ariths signed_take_bit_int_eq_self)
qed

lemma nonneg_unat:
  fixes i :: goint
  assumes "0 \<le> sint i"
  shows "unat i = nat (sint i)"
proof -
  have "sint i < 2 ^ 63" using sint_lt [of i] by simp
  then have "sint i < 2 ^ 64" by simp
  then have "take_bit 64 (sint i) = sint i"
    using assms by (simp add: take_bit_int_eq_self)
  then have "uint i = sint i" using uint_sint [of i] by simp
  then show ?thesis by (simp add: unat_eq_nat_uint)
qed

text \<open>
  \<open>decimal\<close> writes a number in base ten: reading the digits back gives the number.
\<close>

lemma digit_value_digit_char: "d < 10 \<Longrightarrow> digit_value (digit_char d) = d"
  by (simp add: digit_value_def digit_char_def)

lemma decimal_value_snoc: "decimal_value (s @ [c]) = 10 * decimal_value s + digit_value c"
  by (simp add: decimal_value_def)

lemma decimal_value_decimal: "decimal_value (decimal n) = n"
proof (induction n rule: decimal.induct)
  case (1 n)
  show ?case
  proof (cases "n < 10")
    case True
    then show ?thesis
      by (subst decimal.simps) (simp add: decimal_value_def digit_value_digit_char)
  next
    case False
    then have "decimal_value (decimal n) =
        10 * decimal_value (decimal (n div 10)) + digit_value (digit_char (n mod 10))"
      by (subst decimal.simps) (simp add: decimal_value_snoc)
    then show ?thesis using "1.IH" [OF False] by (simp add: digit_value_digit_char)
  qed
qed

subsection \<open>Planning by number of executors\<close>

lemma PlanForNumberOf_loop_eq:
  "0 \<le> sint i \<Longrightarrow> sint i \<le> sint n \<Longrightarrow> length pp = nat (sint n) \<Longrightarrow>
   PlanForNumberOf_loop n i pp =
     take (nat (sint i)) pp @ map (\<lambda>j. \<lparr>ID = decimal j, IsElastic = True, AssignmentAffinity = None\<rparr>) [nat (sint i)..<nat (sint n)]"
proof (induction n i pp rule: PlanForNumberOf_loop.induct)
  case (1 n i pp)
  show ?case
  proof (cases "i <s n")
    case True
    let ?k = "nat (sint i)"
    let ?x = "\<lparr>ID = Itoa i, IsElastic = True, AssignmentAffinity = None\<rparr>"
    have lt: "sint i < sint n" using True by (simp add: word_sless_alt)
    have s1: "sint (i + 1) = sint i + 1" by (rule sint_succ_below [OF True])
    have k: "unat i = ?k" using "1.prems"(1) by (rule nonneg_unat)
    have klen: "?k < length pp" using lt "1.prems" by simp
    have nk: "nat (sint i + 1) = Suc ?k" using "1.prems"(1) by simp
    have itoa: "Itoa i = decimal ?k"
      using "1.prems"(1) by (simp add: Itoa_def word_sless_alt)
    have step: "PlanForNumberOf_loop n i pp = PlanForNumberOf_loop n (i + 1) (pp[unat i := ?x])"
      using True by (simp add: PlanForNumberOf_loop.simps [of n i pp])
    have ih: "PlanForNumberOf_loop n (i + 1) (pp[unat i := ?x]) =
        take (Suc ?k) (pp[?k := ?x]) @
        map (\<lambda>j. \<lparr>ID = decimal j, IsElastic = True, AssignmentAffinity = None\<rparr>) [Suc ?k..<nat (sint n)]"
      using "1.IH" [OF True] "1.prems" lt by (simp add: s1 nk k)
    have tk: "take (Suc ?k) (pp[?k := ?x]) = take ?k pp @ [?x]"
      using klen by (simp add: take_Suc_conv_app_nth)
    have up: "[?k..<nat (sint n)] = ?k # [Suc ?k..<nat (sint n)]"
      using lt "1.prems"(1) by (simp add: upt_conv_Cons)
    show ?thesis unfolding step ih tk up by (simp add: itoa)
  next
    case False
    then have "sint i = sint n" using "1.prems"(2) by (simp add: word_sless_alt)
    then show ?thesis using False "1.prems" by (simp add: PlanForNumberOf_loop.simps [of n i pp])
  qed
qed

lemma PlanForNumberOf_eq:
  assumes "0 \<le> sint n"
  shows "PlanForNumberOf n =
    Returned (map (\<lambda>j. \<lparr>ID = decimal j, IsElastic = True, AssignmentAffinity = None\<rparr>) [0..<nat (sint n)])"
proof -
  have "\<not> n <s 0" using assms by (simp add: word_sless_alt)
  moreover have "length (replicate (unat n) zero_Partition) = nat (sint n)"
    using assms by (simp add: nonneg_unat)
  ultimately show ?thesis
    using PlanForNumberOf_loop_eq [of 0 n "replicate (unat n) zero_Partition"] assms
    by (simp add: PlanForNumberOf_def)
qed

lemma rem_uint64_pos:
  fixes h n :: goint
  assumes "0 < sint n"
  shows "rem_uint64 h n = Returned (h mod n)" "unat (h mod n) = unat h mod nat (sint n)"
proof -
  have "n \<noteq> 0" using assms by auto
  then show "rem_uint64 h n = Returned (h mod n)" by (simp add: rem_uint64_def)
  have "unat n = nat (sint n)" using assms by (simp add: nonneg_unat)
  then show "unat (h mod n) = unat h mod nat (sint n)" by (simp add: unat_mod)
qed

text \<open>
  C3. The HashKey partitioner plans, for \<open>n \<ge> 0\<close> executors, the \<open>n\<close> elastic partitions
  with the IDs \<open>"0"\<close> to \<open>"n-1"\<close> in this order, and for \<open>numOutputs > 0\<close> it routes every
  row, without error, to the decimal rendering of the FNV-1a 64-bit hash of the row's key
  modulo \<open>numOutputs\<close>.
\<close>

theorem hashKey_plan_and_route:
  "(0 \<le> sint n \<longrightarrow>
      PlanNext hashKeyPartitioner ks n =
        Returned (map (\<lambda>j. \<lparr>ID = decimal j, IsElastic = True, AssignmentAffinity = None\<rparr>)
                    [0..<nat (sint n)]))
   \<and> (0 < sint numOutputs \<longrightarrow>
      DeterminePartition hashKeyPartitioner rnd c r numOutputs =
        Returned (decimal (unat (HashString64 (Key r)) mod nat (sint numOutputs)), None))"
  by (simp add: PlanForNumberOf_eq rem_uint64_pos FormatUint_def)

theorem hashKey_plan_and_route_witness:
  "PlanNext (hashKeyPartitioner :: unit Partitioner) [] 3 =
      Returned [\<lparr>ID = ''0'', IsElastic = True, AssignmentAffinity = None\<rparr>,
                \<lparr>ID = ''1'', IsElastic = True, AssignmentAffinity = None\<rparr>,
                \<lparr>ID = ''2'', IsElastic = True, AssignmentAffinity = None\<rparr>]
   \<and> DeterminePartition (hashKeyPartitioner :: unit Partitioner) 0 \<lparr>PartitionID = ''5''\<rparr> \<lparr>Key = ''a''\<rparr> 4 =
      Returned (''0'', None)"
proof -
  have h: "HashString64 ''a'' = 12638187200555641996"
    by (simp add: HashString64_def offset64_def prime64_def)
  have u: "[0..<3] = [0, 1, Suc (Suc 0)]" by (simp add: upt_rec numeral_3_eq_3)
  have d: "decimal 0 = ''0''" "decimal (Suc 0) = ''1''" "decimal (Suc (Suc 0)) = ''2''"
    by code_simp+
  show ?thesis
    using hashKey_plan_and_route [of 3 "[]" 4 0 "\<lparr>PartitionID = ''5''\<rparr>" "\<lparr>Key = ''a''\<rparr>"]
    by (simp add: h u d)
qed

text \<open>
  C2. With \<open>numOutputs = 0\<close> the claim asks for an error value from every partitioner that
  is not FiniteKey. At the HashKey partitioner the call panics and no error value comes
  back.
\<close>

theorem zero_outputs_counterexample:
  "panics (DeterminePartition (hashKeyPartitioner :: unit Partitioner) 0
             \<lparr>PartitionID = ''5''\<rparr> \<lparr>Key = ''a''\<rparr> 0)
   \<and> \<not> returns_error (DeterminePartition (hashKeyPartitioner :: unit Partitioner) 0
             \<lparr>PartitionID = ''5''\<rparr> \<lparr>Key = ''a''\<rparr> 0)"
  by (simp add: rem_uint64_def)

text \<open>
  C2, as the code has it: with \<open>numOutputs = 0\<close> the HashKey and the Shuffled partitioner
  panic with Go's integer division by zero, and the Preserve partitioner returns the
  partition ID of the context with no error.
\<close>

theorem zero_outputs:
  "DeterminePartition hashKeyPartitioner rnd c r 0 = Panicked ''integer divide by zero''
   \<and> DeterminePartition ShuffledPartitioner rnd c r 0 = Panicked ''integer divide by zero''
   \<and> DeterminePartition PreservePartitionerPtr rnd c r 0 = Returned (PartitionID c, None)"
  by (simp add: rem_uint64_def rem_int_def)

subsection \<open>The FiniteKey partitioner\<close>

lemma NewFiniteKeyPartitioner_loop_dom:
  "dom (NewFiniteKeyPartitioner_loop keys keySet) = set keys \<union> dom keySet"
  by (induction keys arbitrary: keySet) auto

lemma FiniteKey_PlanNext_loop_eq:
  "FiniteKey_PlanNext_loop ks partitions =
     partitions @ map (\<lambda>key. \<lparr>ID = key, IsElastic = False, AssignmentAffinity = None\<rparr>) ks"
  by (induction ks arbitrary: partitions) simp_all

text \<open>
  C4. A FiniteKey partitioner over the key set \<open>K\<close> plans, whatever the number of
  executors, one non-elastic partition per key of \<open>K\<close>, with the key as its ID (in the
  order \<open>ks\<close> in which the runtime walks the key set), and routes a row to its key with
  no error exactly when the key is in \<open>K\<close>, answering \<open>ErrNoOutput\<close> otherwise; the
  constructor makes \<open>K\<close> the set of the given keys.
\<close>

theorem finiteKey_plan_and_route:
  fixes r :: "'r Row_scheme"
  assumes "range_order K ks"
  shows "(\<exists>ps. PlanNext (FiniteKeyPartitioner K :: 'r Partitioner) ks numExecutors = Returned ps
          \<and> map ID ps = ks \<and> distinct (map ID ps) \<and> set (map ID ps) = dom K
          \<and> length ps = card (dom K)
          \<and> (\<forall>p \<in> set ps. \<not> IsElastic p \<and> AssignmentAffinity p = None))
    \<and> DeterminePartition (FiniteKeyPartitioner K) rnd c r numOutputs =
         (if Key r \<in> dom K then Returned (Key r, None) else Returned ([], Some ErrNoOutput))
    \<and> (\<exists>K'. (NewFiniteKeyPartitioner keys :: 'r Partitioner) = FiniteKeyPartitioner K'
          \<and> dom K' = set keys)"
proof -
  have o: "distinct ks" "set ks = dom K"
    using assms by (simp_all add: range_order_def)
  let ?ps = "map (\<lambda>key. \<lparr>ID = key, IsElastic = False, AssignmentAffinity = None\<rparr>) ks"
  have ids: "map ID ?ps = ks" by (simp add: comp_def)
  have p: "PlanNext (FiniteKeyPartitioner K :: 'r Partitioner) ks numExecutors = Returned ?ps"
    by (simp add: FiniteKey_PlanNext_loop_eq)
  have len: "length ?ps = card (dom K)"
    using o distinct_card [of ks] by simp
  have el: "\<forall>p \<in> set ?ps. \<not> IsElastic p \<and> AssignmentAffinity p = None" by auto
  have dp: "DeterminePartition (FiniteKeyPartitioner K) rnd c r numOutputs =
         (if Key r \<in> dom K then Returned (Key r, None) else Returned ([], Some ErrNoOutput))"
    by (cases "K (Key r)") (auto simp: dom_def)
  have new: "\<exists>K'. (NewFiniteKeyPartitioner keys :: 'r Partitioner) = FiniteKeyPartitioner K'
          \<and> dom K' = set keys"
    by (simp add: NewFiniteKeyPartitioner_def NewFiniteKeyPartitioner_loop_dom)
  from p ids o len el
  have "\<exists>ps. PlanNext (FiniteKeyPartitioner K :: 'r Partitioner) ks numExecutors = Returned ps
          \<and> map ID ps = ks \<and> distinct (map ID ps) \<and> set (map ID ps) = dom K
          \<and> length ps = card (dom K)
          \<and> (\<forall>p \<in> set ps. \<not> IsElastic p \<and> AssignmentAffinity p = None)"
    by (intro exI [of _ ?ps] conjI) simp_all
  with dp new show ?thesis by blast
qed

theorem finiteKey_plan_and_route_witness:
  "range_order [''x'' \<mapsto> (), ''y'' \<mapsto> ()] [''y'', ''x'']
   \<and> PlanNext (FiniteKeyPartitioner [''x'' \<mapsto> (), ''y'' \<mapsto> ()] :: unit Partitioner) [''y'', ''x''] 7 =
     Returned [\<lparr>ID = ''y'', IsElastic = False, AssignmentAffinity = None\<rparr>,
               \<lparr>ID = ''x'', IsElastic = False, AssignmentAffinity = None\<rparr>]
   \<and> DeterminePartition (FiniteKeyPartitioner [''x'' \<mapsto> (), ''y'' \<mapsto> ()] :: unit Partitioner) 0
        \<lparr>PartitionID = ''5''\<rparr> \<lparr>Key = ''x''\<rparr> 2 = Returned (''x'', None)
   \<and> DeterminePartition (FiniteKeyPartitioner [''x'' \<mapsto> (), ''y'' \<mapsto> ()] :: unit Partitioner) 0
        \<lparr>PartitionID = ''5''\<rparr> \<lparr>Key = ''z''\<rparr> 2 = Returned ([], Some ErrNoOutput)"
proof -
  have r: "range_order [''x'' \<mapsto> (), ''y'' \<mapsto> ()] [''y'', ''x'']"
    by (auto simp: range_order_def)
  show ?thesis
    using r finiteKey_plan_and_route [OF r, of 7 0 "\<lparr>PartitionID = ''5''\<rparr>" "\<lparr>Key = ''x''\<rparr>" 2 "[]"]
      finiteKey_plan_and_route [OF r, of 7 0 "\<lparr>PartitionID = ''5''\<rparr>" "\<lparr>Key = ''z''\<rparr>" 2 "[]"]
    by simp
qed

subsection \<open>The MasterAffinity wrapper\<close>

lemma assign_master_eq:
  "assign_master pt =
     pt\<lparr>AssignmentAffinity :=
          Some (AList.update ''Type'' ''master''
                  (case AssignmentAffinity pt of None \<Rightarrow> [] | Some kvs \<Rightarrow> kvs))\<rparr>"
  by (cases "AssignmentAffinity pt") (auto simp: assign_master_def affinity_len_def Let_def)

lemma masterAssigner_loop_eq:
  "i \<le> length planned \<Longrightarrow>
   masterAssigner_loop i planned = take i planned @ map assign_master (drop i planned)"
proof (induction i planned rule: masterAssigner_loop.induct)
  case (1 i planned)
  show ?case
  proof (cases "i < length planned")
    case True
    have "masterAssigner_loop i planned =
        masterAssigner_loop (Suc i) (planned[i := assign_master (planned ! i)])"
      using True by (simp add: masterAssigner_loop.simps [of i planned])
    also have "\<dots> = take (Suc i) (planned[i := assign_master (planned ! i)]) @
        map assign_master (drop (Suc i) (planned[i := assign_master (planned ! i)]))"
      using "1.IH" [OF True] True by simp
    also have "\<dots> = take i planned @ map assign_master (drop i planned)"
      using True by (simp add: take_Suc_conv_app_nth Cons_nth_drop_Suc [symmetric])
    finally show ?thesis .
  next
    case False
    then have "masterAssigner_loop i planned = planned"
      by (subst masterAssigner_loop.simps) simp
    then show ?thesis using False "1.prems" by simp
  qed
qed

text \<open>
  C5. For every partitioner \<open>p\<close>, \<open>WithAssignmentToMaster p\<close> routes exactly as \<open>p\<close> does,
  and its plan is the plan of \<open>p\<close> in which every partition has got the affinity
  \<open>"Type" = "master"\<close>, written into its affinity map (the empty map when it had none):
  the ID, the elasticity and the other affinities of every partition are those of \<open>p\<close>'s
  plan, and a panic of \<open>p\<close> is passed on.
\<close>

theorem masterAssigner_frame:
  "DeterminePartition (WithAssignmentToMaster p) rnd c r numOutputs =
     DeterminePartition p rnd c r numOutputs
   \<and> PlanNext (WithAssignmentToMaster p) ks numExecutors =
     map_outcome
       (map (\<lambda>pt. pt\<lparr>AssignmentAffinity :=
                      Some (AList.update ''Type'' ''master''
                              (case AssignmentAffinity pt of None \<Rightarrow> [] | Some kvs \<Rightarrow> kvs))\<rparr>))
       (PlanNext p ks numExecutors)"
proof -
  have "masterAssigner_loop 0 = map assign_master"
    by (rule ext) (simp add: masterAssigner_loop_eq)
  then show ?thesis
    by (simp add: WithAssignmentToMaster_def WrapPartitioner_def assign_master_eq [abs_def])
qed

subsection \<open>IsPreserved\<close>

text \<open>
  C6. The claim asks \<open>IsPreserved\<close> to see the Preserve partitioner through every wrapper.
  It does not see it through the MasterAffinity wrapper.
\<close>

theorem IsPreserved_masterAssigner_counterexample:
  "IsPreserved (WithAssignmentToMaster (NewPreservePartitioner :: unit Partitioner)) = False"
  by (simp add: IsPreserved_def WithAssignmentToMaster_def WrapPartitioner_def)

text \<open>
  C6, as the code has it: \<open>IsPreserved p\<close> holds exactly when \<open>p\<close> is the pointer that
  \<open>NewPreservePartitioner\<close> returns, or the serialization wrapper directly around it.
\<close>

theorem IsPreserved_iff:
  "IsPreserved p \<longleftrightarrow>
     p = NewPreservePartitioner \<or> p = Serializable (WrapPartitioner NewPreservePartitioner)"
  by (induction p rule: UnwrapPartitioner.induct)
     (auto simp: IsPreserved_def NewPreservePartitioner_def WrapPartitioner_def
           elim: is_PreservePartitionerPtr.elims)

subsection \<open>The task executor\<close>

text \<open>
  C1. The claim: when \<open>Output.Close()\<close> returns an error the executor aborts, and
  \<open>ReportSuccess\<close> is not called afterwards; a failure is reported once. The run of a
  task whose output fails to close, evaluated: after the failure report the executor
  reports success and signals the finish; when that success report fails as well, a
  second failure is reported.
\<close>

theorem Run_close_error_reports_success:
  "Run close_fails [] =
     (Returned (),
      [TeardownCall, CloseCall,
       ReportFailureCall (Wrap (OtherError ''flush'') ''close output''), CloseCall,
       ReportSuccessCall, FinishSend])
   \<and> Run close_and_report_fail [] =
     (Returned (),
      [TeardownCall, CloseCall,
       ReportFailureCall (Wrap (OtherError ''flush'') ''close output''), CloseCall,
       ReportSuccessCall,
       ReportFailureCall (Wrap (OtherError ''etcd'') ''report successful task''), CloseCall])"
  by (simp add: Run_def Run_body_def Abort_def close_fails_def close_and_report_fail_def)

text \<open>
  The send on \<open>finishChan\<close> is made by \<open>Run\<close> alone, as its last statement: neither the
  drain loop nor \<open>Abort\<close> makes it, and a run that makes it has seen \<open>ReportSuccess\<close>
  return nil.
\<close>

lemma Abort_no_finish:
  "list_ex is_FinishSend (snd (Abort e err tr)) = list_ex is_FinishSend tr"
  by (simp add: Abort_def Let_def split: outcome.splits)

lemma Run_loop_no_finish:
  "list_ex is_FinishSend (snd (Run_loop e batches i tr)) = list_ex is_FinishSend tr"
proof (induction batches arbitrary: i tr)
  case Nil
  then show ?case by simp
next
  case (Cons rows rest)
  show ?case
  proof (cases "Apply e i rows")
    case (Panicked msg)
    then show ?thesis by simp
  next
    case (Returned res)
    show ?thesis
    proof (cases res)
      case None
      then show ?thesis using Returned Cons.IH [of "Suc i" "tr @ [ApplyCall rows]"] by simp
    next
      case (Some err)
      have "list_ex is_FinishSend (snd (Abort e err (tr @ [ApplyCall rows]))) = list_ex is_FinishSend tr"
        by (simp add: Abort_no_finish)
      then show ?thesis using Returned Some
        by (cases "Abort e err (tr @ [ApplyCall rows])") (auto split: outcome.splits)
    qed
  qed
qed

lemma Run_body_finish:
  assumes "list_ex is_FinishSend (snd (Run_body e batches []))"
  shows "ReportSuccess e = Returned None \<and> fst (Run_body e batches []) = Returned ()"
proof -
  obtain res tr1 where l: "Run_loop e batches 0 [] = (res, tr1)" by (cases "Run_loop e batches 0 []")
  have nf: "\<not> list_ex is_FinishSend tr1"
    using Run_loop_no_finish [of e batches 0 "[]"] l by simp
  show ?thesis
    using assms l nf
    apply (simp add: Run_body_def Let_def Abort_no_finish split: outcome.splits bool.splits option.splits prod.splits)
    apply (auto simp: Abort_no_finish dest!: arg_cong [where f = "\<lambda>p. list_ex is_FinishSend (snd p)"])
    done
qed

lemma Run_finish_only_after_success:
  assumes "list_ex is_FinishSend (snd (Run e batches))"
  shows "ReportSuccess e = Returned None"
proof (cases "Run_body e batches []")
  case (Pair res tr)
  show ?thesis
  proof (cases res)
    case (Returned u)
    then show ?thesis using assms Pair Run_body_finish [of e batches] by (simp add: Run_def)
  next
    case (Panicked msg)
    then have "list_ex is_FinishSend tr"
      using assms Pair by (simp add: Run_def Abort_no_finish)
    then show ?thesis using Pair Run_body_finish [of e batches] by simp
  qed
qed

text \<open>
  C9. The claim: the finish is signalled on the success branch only, and an aborted task
  never signals it. The same run, observed at the channel: the task has reported its
  failure and the send on \<open>finishChan\<close> is made.
\<close>

theorem Run_aborted_task_signals_finish:
  "list_ex is_ReportFailureCall (snd (Run close_fails []))
   \<and> list_ex is_FinishSend (snd (Run close_fails []))"
  by (simp add: Run_def Run_body_def Abort_def close_fails_def)

subsection \<open>From\<close>

lemma From_slice_loop_eq: "From_slice_loop xs rows = rows @ map Value xs"
  by (induction xs arbitrary: rows) simp_all

lemma From_entry_loop_eq: "From_entry_loop k xs rows = rows @ map (KeyValue k) xs"
  by (induction xs arbitrary: rows) simp_all

lemma From_map_loop_seq:
  "From_map_loop SeqElem (map (\<lambda>(k, xs). (StringKey k, SeqVal xs)) kxs) rows =
     rows @ concat (map (\<lambda>(k, xs). map (KeyValue k) xs) kxs)"
  by (induction kxs arbitrary: rows) (auto simp: From_entry_loop_eq)

lemma From_map_loop_other:
  "ek \<noteq> SeqElem \<Longrightarrow>
   From_map_loop ek (map (\<lambda>(k, v). (StringKey k, v)) kvs) rows =
     rows @ map (\<lambda>(k, v). KeyValue k v) kvs"
  by (induction kvs arbitrary: rows) auto

text \<open>
  C8. The claim's example \<open>From({"a": [1,2], "b": 3})\<close> is a map with values of two types,
  in Go a \<open>map[string]interface{}\<close>. Every entry value then has kind Interface, the
  sequence is not taken apart, and in either order of the entries two rows come out, not
  three.
\<close>

theorem From_heterogeneous_map_counterexample:
  "From (MapVal InterfaceElem
           [(StringKey ''a'', SeqVal [IntVal 1, IntVal 2]), (StringKey ''b'', IntVal 3)]) =
     Returned [KeyValue ''a'' (SeqVal [IntVal 1, IntVal 2]), KeyValue ''b'' (IntVal 3)]
   \<and> From (MapVal InterfaceElem
           [(StringKey ''b'', IntVal 3), (StringKey ''a'', SeqVal [IntVal 1, IntVal 2])]) =
     Returned [KeyValue ''b'' (IntVal 3), KeyValue ''a'' (SeqVal [IntVal 1, IntVal 2])]"
  by simp

text \<open>
  C8, as the code has it: on a map with string keys \<open>From\<close> gives every row the key of its
  entry. When the element type of the map is a slice or array type, an entry yields one
  row per element, in element order; for every other element type, \<open>interface{}\<close>
  included, an entry yields exactly one row that holds the entry's value as it is. So
  \<open>map[string][]int{"a": {1,2}, "b": {3}}\<close> yields the three rows of the claim, the rows of
  \<open>"a"\<close> in element order, in either order of the entries.
\<close>

theorem From_map:
  "From (MapVal SeqElem (map (\<lambda>(k, xs). (StringKey k, SeqVal xs)) kxs)) =
     Returned (concat (map (\<lambda>(k, xs). map (KeyValue k) xs) kxs))
   \<and> From (MapVal InterfaceElem (map (\<lambda>(k, v). (StringKey k, v)) kvs)) =
     Returned (map (\<lambda>(k, v). KeyValue k v) kvs)
   \<and> From (MapVal OtherElem (map (\<lambda>(k, v). (StringKey k, v)) kvs)) =
     Returned (map (\<lambda>(k, v). KeyValue k v) kvs)
   \<and> From (MapVal SeqElem
        [(StringKey ''a'', SeqVal [IntVal 1, IntVal 2]), (StringKey ''b'', SeqVal [IntVal 3])]) =
     Returned [KeyValue ''a'' (IntVal 1), KeyValue ''a'' (IntVal 2), KeyValue ''b'' (IntVal 3)]
   \<and> From (MapVal SeqElem
        [(StringKey ''b'', SeqVal [IntVal 3]), (StringKey ''a'', SeqVal [IntVal 1, IntVal 2])]) =
     Returned [KeyValue ''b'' (IntVal 3), KeyValue ''a'' (IntVal 1), KeyValue ''a'' (IntVal 2)]"
  by (simp add: From_map_loop_seq From_map_loop_other Let_def)

subsection \<open>Row.Merge\<close>

lemma Merge_loop_eq:
  assumes "dst < length s" "valid_ref s src" "src \<noteq> Some dst"
  shows "Merge_loop src dst ks s =
    s[dst := (\<lambda>k. if k \<in> set ks then Some (row_index s src k) else (s ! dst) k)]"
  using assms
proof (induction ks arbitrary: s)
  case Nil
  then show ?case by (simp add: list_update_same_conv)
next
  case (Cons k ks)
  let ?s1 = "assign s dst k (row_index s src k)"
  have len: "length ?s1 = length s" by (simp add: assign_def)
  have rm: "row_map ?s1 src = row_map s src"
    using Cons.prems by (cases src) (auto simp: row_map_def assign_def)
  then have ri: "\<And>k'. row_index ?s1 src k' = row_index s src k'"
    by (simp add: row_index_def)
  have v: "valid_ref ?s1 src"
    using Cons.prems(2) by (cases src) (simp_all add: valid_ref_def assign_def)
  have "Merge_loop src dst (k # ks) s = Merge_loop src dst ks ?s1" by simp
  also have "\<dots> = ?s1[dst := (\<lambda>k'. if k' \<in> set ks then Some (row_index ?s1 src k') else (?s1 ! dst) k')]"
    using Cons.IH [of ?s1] Cons.prems len v by simp
  also have "\<dots> = s[dst := (\<lambda>k'. if k' \<in> set (k # ks) then Some (row_index s src k') else (s ! dst) k')]"
    using Cons.prems(1)
    by (auto simp: ri [unfolded assign_def] assign_def fun_eq_iff
             intro!: arg_cong [where f = "list_update s dst"])
  finally show ?case .
qed

lemma range_order_index:
  assumes "range_order (row_map s src) ks"
  shows "(\<lambda>k. if k \<in> set ks then Some (row_index s src k) else m k) = m ++ row_map s src"
proof
  fix k
  show "(if k \<in> set ks then Some (row_index s src k) else m k) = (m ++ row_map s src) k"
    using assms
    by (cases "row_map s src k") (auto simp: range_order_def row_index_def map_add_def dom_def)
qed

lemma Merge_eq:
  assumes "valid_ref s r" "valid_ref s a"
    and "range_order (row_map s r) ks_r" "range_order (row_map s a) ks_a"
  shows "Merge s r a ks_r ks_a = (s @ [row_map s r ++ row_map s a], Some (length s))"
proof -
  let ?s1 = "s @ [Map.empty]"
  let ?d = "length s"
  have v1: "valid_ref ?s1 r" "valid_ref ?s1 a" "r \<noteq> Some ?d" "a \<noteq> Some ?d"
    using assms(1,2) by (auto simp: valid_ref_def split: option.splits)
  have rm1: "row_map ?s1 r = row_map s r" "row_map ?s1 a = row_map s a"
    using assms(1,2) by (auto simp: row_map_def valid_ref_def nth_append split: option.splits)
  have ro1: "range_order (row_map ?s1 r) ks_r" using assms(3) rm1 by simp
  have "Merge_loop r ?d ks_r ?s1 =
      ?s1[?d := (\<lambda>k. if k \<in> set ks_r then Some (row_index ?s1 r k) else (?s1 ! ?d) k)]"
    using v1 by (intro Merge_loop_eq) simp_all
  also have "\<dots> = ?s1[?d := Map.empty ++ row_map ?s1 r]"
    using range_order_index [OF ro1, of "?s1 ! ?d"] by simp
  also have "\<dots> = s @ [row_map s r]" by (simp add: rm1)
  finally have s2: "Merge_loop r ?d ks_r ?s1 = s @ [row_map s r]" .
  let ?s2 = "s @ [row_map s r]"
  have v2: "valid_ref ?s2 a"
    using assms(2) by (auto simp: valid_ref_def split: option.splits)
  have rm2: "row_map ?s2 a = row_map s a"
    using assms(2) by (auto simp: row_map_def valid_ref_def nth_append split: option.splits)
  have ro2: "range_order (row_map ?s2 a) ks_a" using assms(4) rm2 by simp
  have "Merge_loop a ?d ks_a ?s2 =
      ?s2[?d := (\<lambda>k. if k \<in> set ks_a then Some (row_index ?s2 a k) else (?s2 ! ?d) k)]"
    using v1 v2 by (intro Merge_loop_eq) simp_all
  also have "\<dots> = ?s2[?d := (?s2 ! ?d) ++ row_map ?s2 a]"
    using range_order_index [OF ro2, of "?s2 ! ?d"] by simp
  also have "\<dots> = s @ [row_map s r ++ row_map s a]" by (simp add: rm2)
  finally have s3: "Merge_loop a ?d ks_a ?s2 = s @ [row_map s r ++ row_map s a]" .
  show ?thesis
    by (simp add: Merge_def make_Row_def s2 s3)
qed

text \<open>
  C10. \<open>r.Merge(a)\<close> returns a Row at an address that was not allocated before the call;
  its keys are the keys of \<open>r\<close> and of \<open>a\<close>; a key of \<open>a\<close> has \<open>a\<close>'s value, a key of \<open>r\<close>
  alone has \<open>r\<close>'s value; and every map that existed before the call, \<open>r\<close> and \<open>a\<close> among
  them, is what it was.
\<close>

theorem Merge_fresh_union:
  assumes "valid_ref s r" "valid_ref s a"
    and "range_order (row_map s r) ks_r" "range_order (row_map s a) ks_a"
  shows "\<exists>s' dst. Merge s r a ks_r ks_a = (s', Some dst)
    \<and> dst = length s \<and> \<not> valid_ref s (Some dst) \<and> valid_ref s' (Some dst)
    \<and> take (length s) s' = s
    \<and> row_map s' r = row_map s r \<and> row_map s' a = row_map s a
    \<and> dom (row_map s' (Some dst)) = dom (row_map s r) \<union> dom (row_map s a)
    \<and> (\<forall>k \<in> dom (row_map s a). row_map s' (Some dst) k = row_map s a k)
    \<and> (\<forall>k \<in> dom (row_map s r) - dom (row_map s a). row_map s' (Some dst) k = row_map s r k)"
proof -
  let ?s' = "s @ [row_map s r ++ row_map s a]"
  have m: "Merge s r a ks_r ks_a = (?s', Some (length s))"
    using assms by (rule Merge_eq)
  have rm: "row_map ?s' r = row_map s r" "row_map ?s' a = row_map s a"
    using assms(1,2) by (auto simp: row_map_def valid_ref_def nth_append split: option.splits)
  have d: "row_map ?s' (Some (length s)) = row_map s r ++ row_map s a"
    by (simp add: row_map_def)
  have "\<forall>k \<in> dom (row_map s r) - dom (row_map s a). (row_map s r ++ row_map s a) k = row_map s r k"
    by (auto simp: map_add_def dom_def split: option.splits)
  moreover have "\<forall>k \<in> dom (row_map s a). (row_map s r ++ row_map s a) k = row_map s a k"
    by (auto simp: map_add_def dom_def split: option.splits)
  ultimately show ?thesis
    using m rm d by (simp add: valid_ref_def) blast
qed

theorem Merge_fresh_union_witness:
  "valid_ref [[''x'' \<mapsto> Dyn (1::nat), ''y'' \<mapsto> Dyn 2], [''y'' \<mapsto> Dyn 3]] (Some 0)
   \<and> valid_ref [[''x'' \<mapsto> Dyn (1::nat), ''y'' \<mapsto> Dyn 2], [''y'' \<mapsto> Dyn 3]] (Some 1)
   \<and> range_order (row_map [[''x'' \<mapsto> Dyn (1::nat), ''y'' \<mapsto> Dyn 2], [''y'' \<mapsto> Dyn 3]] (Some 0))
        [''y'', ''x'']
   \<and> range_order (row_map [[''x'' \<mapsto> Dyn (1::nat), ''y'' \<mapsto> Dyn 2], [''y'' \<mapsto> Dyn 3]] (Some 1))
        [''y'']
   \<and> (\<exists>s'. Merge [[''x'' \<mapsto> Dyn (1::nat), ''y'' \<mapsto> Dyn 2], [''y'' \<mapsto> Dyn 3]] (Some 0) (Some 1)
               [''y'', ''x''] [''y''] = (s', Some 2)
          \<and> row_map s' (Some 2) ''x'' = Some (Dyn 1)
          \<and> row_map s' (Some 2) ''y'' = Some (Dyn 3)
          \<and> row_map s' (Some 0) ''y'' = Some (Dyn 2))"
proof -
  let ?s = "[[''x'' \<mapsto> Dyn (1::nat), ''y'' \<mapsto> Dyn 2], [''y'' \<mapsto> Dyn 3]]"
  have v: "valid_ref ?s (Some 0)" "valid_ref ?s (Some 1)"
    by (simp_all add: valid_ref_def)
  have r0: "row_map ?s (Some 0) = [''x'' \<mapsto> Dyn 1, ''y'' \<mapsto> Dyn 2]"
    and r1: "row_map ?s (Some 1) = [''y'' \<mapsto> Dyn 3]"
    by (simp_all add: row_map_def)
  have o: "range_order (row_map ?s (Some 0)) [''y'', ''x'']"
    "range_order (row_map ?s (Some 1)) [''y'']"
    unfolding r0 r1 by (auto simp: range_order_def)
  obtain s' dst where m: "Merge ?s (Some 0) (Some 1) [''y'', ''x''] [''y''] = (s', Some dst)"
    and d: "dst = length ?s"
    and keep: "row_map s' (Some 0) = row_map ?s (Some 0)"
    and from_a: "\<forall>k \<in> dom (row_map ?s (Some 1)). row_map s' (Some dst) k = row_map ?s (Some 1) k"
    and from_r: "\<forall>k \<in> dom (row_map ?s (Some 0)) - dom (row_map ?s (Some 1)).
                   row_map s' (Some dst) k = row_map ?s (Some 0) k"
    using Merge_fresh_union [OF v o] by blast
  have "dst = 2" using d by simp
  moreover have "row_map s' (Some dst) ''y'' = Some (Dyn 3)"
    using from_a unfolding r1 by simp
  moreover have "row_map s' (Some dst) ''x'' = Some (Dyn 1)"
    using from_r unfolding r0 r1 by simp
  moreover have "row_map s' (Some 0) ''y'' = Some (Dyn 2)"
    using keep unfolding r0 by simp
  ultimately show ?thesis using v o m by blast
qed

end
